theory Spec2Isabelle
  imports Main "HOL-Library.Word" "HOL-Library.Log_Nat" "HOL-Library.Multiset"
begin

unbundle bit_operations_syntax

section \<open>Double-precision values and their bit patterns\<close>

text \<open>
  Go's \<open>float64\<close> is an IEEE-754 binary64 value: one sign bit, an 11-bit biased exponent
  and a 52-bit fraction. \<open>math.Float64bits\<close> and \<open>math.Float64frombits\<close> reinterpret such a
  value as a \<open>uint64\<close> and back: the sign is bit 63, the exponent bits 62..52, the fraction
  bits 51..0.
\<close>

datatype float64 = Float64 (sign: bool) (expo: "11 word") (fraction: "52 word")

definition Float64bits :: "float64 \<Rightarrow> 64 word" where
  "Float64bits f =
     push_bit 63 (of_bool (sign f)) OR push_bit 52 (ucast (expo f)) OR ucast (fraction f)"

definition Float64frombits :: "64 word \<Rightarrow> float64" where
  "Float64frombits b = Float64 (bit b 63) (ucast (drop_bit 52 b)) (ucast b)"

definition is_nan :: "float64 \<Rightarrow> bool" where
  "is_nan f = (expo f = 2047 \<and> fraction f \<noteq> 0)"

definition is_inf :: "float64 \<Rightarrow> bool" where
  "is_inf f = (expo f = 2047 \<and> fraction f = 0)"


subsection \<open>Addition\<close>

text \<open>
  Every finite double is an integer multiple of \<open>2^-1074\<close>. \<open>magnitude\<close> is the absolute
  value of a finite double in that unit (a subnormal has exponent field 0 and no hidden bit),
  \<open>scaled\<close> the signed value.
\<close>

definition magnitude :: "float64 \<Rightarrow> nat" where
  "magnitude f =
     (if expo f = 0 then unat (fraction f)
      else (2 ^ 52 + unat (fraction f)) * 2 ^ (unat (expo f) - 1))"

definition scaled :: "float64 \<Rightarrow> int" where
  "scaled f = (if sign f then - int (magnitude f) else int (magnitude f))"

text \<open>
  \<open>round_magnitude s m\<close> is the double of sign \<open>s\<close> nearest to \<open>m\<close> units of \<open>2^-1074\<close>,
  ties going to the even significand (the rounding mode Go's arithmetic uses). Below
  \<open>2^53\<close> units the value is a subnormal or has exponent field 1, and is exact. Otherwise
  the \<open>k\<close> low bits beyond the 53-bit significand \<open>q\<close> are rounded away; a significand
  that rounds up to \<open>2^53\<close> is renormalised, and an exponent field beyond 2046 is infinity.
\<close>

definition round_magnitude :: "bool \<Rightarrow> nat \<Rightarrow> float64" where
  "round_magnitude s m =
     (if m < 2 ^ 52 then Float64 s 0 (of_nat m)
      else if m < 2 ^ 53 then Float64 s 1 (of_nat (m - 2 ^ 52))
      else
        let k = floorlog 2 m - 53;
            q = m div 2 ^ k;
            r = m mod 2 ^ k;
            half = 2 ^ (k - 1);
            q1 = (if half < r \<or> (r = half \<and> odd q) then q + 1 else q);
            q2 = (if q1 = 2 ^ 53 then 2 ^ 52 else q1);
            e = (if q1 = 2 ^ 53 then k + 2 else k + 1)
        in if 2047 \<le> e then Float64 s 2047 0
           else Float64 s (of_nat e) (of_nat (q2 - 2 ^ 52)))"

text \<open>
  A NaN operand gives a NaN result. IEEE-754 and the Go specification leave the payload of
  that NaN open; the model takes the first NaN operand with its quiet bit set, and the
  default NaN for \<open>\<infinity> + (-\<infinity>)\<close>, as the amd64 instruction does. The theorems below use of
  this choice only that the result is a NaN.
\<close>

definition quiet :: "float64 \<Rightarrow> float64" where
  "quiet f = Float64 (sign f) 2047 (fraction f OR push_bit 51 1)"

definition default_nan :: float64 where
  "default_nan = Float64 True 2047 (push_bit 51 1)"

text \<open>The \<open>+\<close> of Go on two \<open>float64\<close> values.\<close>

definition f64_add :: "float64 \<Rightarrow> float64 \<Rightarrow> float64" where
  "f64_add x y =
     (if is_nan x then quiet x
      else if is_nan y then quiet y
      else if is_inf x then (if is_inf y \<and> sign x \<noteq> sign y then default_nan else x)
      else if is_inf y then y
      else
        let z = scaled x + scaled y
        in if z = 0 then Float64 (sign x \<and> sign y) 0 0
           else round_magnitude (z < 0) (nat \<bar>z\<bar>))"

text \<open>
  The conversion \<open>float64(n)\<close> of a Go \<open>int\<close>, used by the harness for the expected total:
  the nearest double.
\<close>

definition float64_of_int :: "int \<Rightarrow> float64" where
  "float64_of_int n =
     (if n = 0 then Float64 False 0 0 else round_magnitude (n < 0) (nat \<bar>n\<bar> * 2 ^ 1074))"

text \<open>An integer is exactly representable when converting it loses nothing.\<close>

definition representable :: "int \<Rightarrow> bool" where
  "representable n = (scaled (float64_of_int n) = n * 2 ^ 1074)"

section \<open>The atomic primitives of \<open>sync/atomic\<close>\<close>

text \<open>
  Each primitive acts on one 64-bit memory cell (the \<open>*uint64\<close> argument) in a single
  indivisible step; it is given the cell's content and returns its result with the new
  content.
\<close>

definition LoadUint64 :: "64 word \<Rightarrow> 64 word \<times> 64 word" where
  "LoadUint64 cell = (cell, cell)"

definition StoreUint64 :: "64 word \<Rightarrow> 64 word \<Rightarrow> 64 word" where
  "StoreUint64 cell val = val"

definition SwapUint64 :: "64 word \<Rightarrow> 64 word \<Rightarrow> 64 word \<times> 64 word" where
  "SwapUint64 cell new = (cell, new)"

definition CompareAndSwapUint64 :: "64 word \<Rightarrow> 64 word \<Rightarrow> 64 word \<Rightarrow> bool \<times> 64 word" where
  "CompareAndSwapUint64 cell old new = (if cell = old then (True, new) else (False, cell))"

text \<open>
  Between the load and the compare-and-swap of one attempt of \<open>Add\<close> other goroutines may
  write the cell. \<open>env n\<close> is what they do to the cell during attempt number \<open>n\<close> of a call;
  \<open>undisturbed\<close> is the environment of a caller that runs alone.
\<close>

type_synonym env = "nat \<Rightarrow> 64 word \<Rightarrow> 64 word"

definition undisturbed :: env where
  "undisturbed = (\<lambda>n cell. cell)"

text \<open>
  A failed compare-and-swap leaves in the cell what the others wrote, and the next attempt
  loads it. \<open>attempt_cell env n c k\<close> is the content loaded by attempt \<open>n + k\<close> when attempt
  \<open>n\<close> loads \<open>c\<close> and the attempts in between fail.
\<close>

fun attempt_cell :: "env \<Rightarrow> nat \<Rightarrow> 64 word \<Rightarrow> nat \<Rightarrow> 64 word" where
  "attempt_cell env n c 0 = c"
| "attempt_cell env n c (Suc k) = attempt_cell env (Suc n) (env n c) k"

section \<open>\<open>atomicFloatCAS\<close>: the bitwise variant with a \<open>for\<close> loop\<close>

record atomicFloatCAS =
  u64 :: "64 word"

definition NewAtomicFloatCAS :: "float64 \<Rightarrow> atomicFloatCAS" where
  "NewAtomicFloatCAS initial = \<lparr>u64 = Float64bits initial\<rparr>"

partial_function (option) CAS_Add_loop ::
  "env \<Rightarrow> nat \<Rightarrow> float64 \<Rightarrow> atomicFloatCAS \<Rightarrow> (float64 \<times> atomicFloatCAS) option" where
  "CAS_Add_loop env n delta a =
     (let (oldBits, c1) = LoadUint64 (u64 a);
          newValue = f64_add (Float64frombits oldBits) delta;
          newBits = Float64bits newValue;
          c2 = env n c1;
          (ok, c3) = CompareAndSwapUint64 c2 oldBits newBits
      in if ok then Some (newValue, a\<lparr>u64 := c3\<rparr>)
         else CAS_Add_loop env (Suc n) delta (a\<lparr>u64 := c3\<rparr>))"

definition CAS_Add :: "env \<Rightarrow> float64 \<Rightarrow> atomicFloatCAS \<Rightarrow> (float64 \<times> atomicFloatCAS) option" where
  "CAS_Add env delta a = CAS_Add_loop env 0 delta a"

definition CAS_Load :: "atomicFloatCAS \<Rightarrow> float64 \<times> atomicFloatCAS" where
  "CAS_Load a = (let (bits, c) = LoadUint64 (u64 a) in (Float64frombits bits, a\<lparr>u64 := c\<rparr>))"

definition CAS_Store :: "float64 \<Rightarrow> atomicFloatCAS \<Rightarrow> atomicFloatCAS" where
  "CAS_Store new a = a\<lparr>u64 := StoreUint64 (u64 a) (Float64bits new)\<rparr>"

definition CAS_Swap :: "float64 \<Rightarrow> atomicFloatCAS \<Rightarrow> float64 \<times> atomicFloatCAS" where
  "CAS_Swap new a =
     (let (bits, c) = SwapUint64 (u64 a) (Float64bits new) in (Float64frombits bits, a\<lparr>u64 := c\<rparr>))"

section \<open>\<open>atomicFloatCAS2\<close>: the bitwise variant with a \<open>goto\<close>\<close>

record atomicFloatCAS2 =
  u64 :: "64 word"

definition NewAtomicFloatCAS2 :: "float64 \<Rightarrow> atomicFloatCAS2" where
  "NewAtomicFloatCAS2 initial = \<lparr>u64 = Float64bits initial\<rparr>"

text \<open>
  The label \<open>loop\<close> is the head of the recursion and \<open>goto loop\<close> the recursive call. The
  loop has no bound: a call whose every attempt is disturbed never returns, which is the
  value \<open>None\<close>.
\<close>

partial_function (option) CAS2_Add_loop ::
  "env \<Rightarrow> nat \<Rightarrow> float64 \<Rightarrow> atomicFloatCAS2 \<Rightarrow> (float64 \<times> atomicFloatCAS2) option" where
  "CAS2_Add_loop env n delta a =
     (let (oldBits, c1) = LoadUint64 (u64 a);
          newValue = f64_add (Float64frombits oldBits) delta;
          newBits = Float64bits newValue;
          c2 = env n c1;
          (ok, c3) = CompareAndSwapUint64 c2 oldBits newBits
      in if \<not> ok then CAS2_Add_loop env (Suc n) delta (a\<lparr>u64 := c3\<rparr>)
         else Some (newValue, a\<lparr>u64 := c3\<rparr>))"

definition CAS2_Add :: "env \<Rightarrow> float64 \<Rightarrow> atomicFloatCAS2 \<Rightarrow> (float64 \<times> atomicFloatCAS2) option" where
  "CAS2_Add env delta a = CAS2_Add_loop env 0 delta a"

definition CAS2_Load :: "atomicFloatCAS2 \<Rightarrow> float64 \<times> atomicFloatCAS2" where
  "CAS2_Load a = (let (bits, c) = LoadUint64 (u64 a) in (Float64frombits bits, a\<lparr>u64 := c\<rparr>))"

definition CAS2_Store :: "float64 \<Rightarrow> atomicFloatCAS2 \<Rightarrow> atomicFloatCAS2" where
  "CAS2_Store new a = a\<lparr>u64 := StoreUint64 (u64 a) (Float64bits new)\<rparr>"

definition CAS2_Swap :: "float64 \<Rightarrow> atomicFloatCAS2 \<Rightarrow> float64 \<times> atomicFloatCAS2" where
  "CAS2_Swap new a =
     (let (bits, c) = SwapUint64 (u64 a) (Float64bits new) in (Float64frombits bits, a\<lparr>u64 := c\<rparr>))"

section \<open>\<open>atomicFloatMutex\<close>: the locking variant\<close>

text \<open>
  A \<open>sync.RWMutex\<close> is held by one writer or by any number of readers. \<open>Lock\<close> and \<open>RLock\<close>
  wait while the lock is held in a conflicting mode; a caller that runs alone would then
  wait for ever, which is the fault \<open>Blocked\<close>. Releasing a lock that is not held is a
  fatal error of the Go runtime.
\<close>

datatype fault = Blocked | Fatal

record RWMutex =
  writer :: bool
  readers :: nat

definition Lock :: "RWMutex \<Rightarrow> fault + RWMutex" where
  "Lock m = (if writer m \<or> 0 < readers m then Inl Blocked else Inr (m\<lparr>writer := True\<rparr>))"

definition Unlock :: "RWMutex \<Rightarrow> fault + RWMutex" where
  "Unlock m = (if writer m then Inr (m\<lparr>writer := False\<rparr>) else Inl Fatal)"

definition RLock :: "RWMutex \<Rightarrow> fault + RWMutex" where
  "RLock m = (if writer m then Inl Blocked else Inr (m\<lparr>readers := readers m + 1\<rparr>))"

definition RUnlock :: "RWMutex \<Rightarrow> fault + RWMutex" where
  "RUnlock m = (if 0 < readers m then Inr (m\<lparr>readers := readers m - 1\<rparr>) else Inl Fatal)"

record atomicFloatMutex =
  f64 :: float64
  l :: RWMutex

text \<open>The zero value of a \<open>sync.RWMutex\<close> is an unlocked mutex.\<close>

definition NewAtomicFloatMutex :: "float64 \<Rightarrow> atomicFloatMutex" where
  "NewAtomicFloatMutex initial = \<lparr>f64 = initial, l = \<lparr>writer = False, readers = 0\<rparr>\<rparr>"

definition Mutex_Add :: "float64 \<Rightarrow> atomicFloatMutex \<Rightarrow> fault + float64 \<times> atomicFloatMutex" where
  "Mutex_Add delta a =
     (case Lock (l a) of Inl e \<Rightarrow> Inl e | Inr l1 \<Rightarrow>
       (let a1 = a\<lparr>l := l1\<rparr>;
            a2 = a1\<lparr>f64 := f64_add (f64 a1) delta\<rparr>;
            new = f64 a2
        in (case Unlock (l a2) of Inl e \<Rightarrow> Inl e | Inr l2 \<Rightarrow> Inr (new, a2\<lparr>l := l2\<rparr>))))"

definition Mutex_Load :: "atomicFloatMutex \<Rightarrow> fault + float64 \<times> atomicFloatMutex" where
  "Mutex_Load a =
     (case RLock (l a) of Inl e \<Rightarrow> Inl e | Inr l1 \<Rightarrow>
       (let a1 = a\<lparr>l := l1\<rparr>;
            f = f64 a1
        in (case RUnlock (l a1) of Inl e \<Rightarrow> Inl e | Inr l2 \<Rightarrow> Inr (f, a1\<lparr>l := l2\<rparr>))))"

definition Mutex_Store :: "float64 \<Rightarrow> atomicFloatMutex \<Rightarrow> fault + atomicFloatMutex" where
  "Mutex_Store new a =
     (case Lock (l a) of Inl e \<Rightarrow> Inl e | Inr l1 \<Rightarrow>
       (let a1 = a\<lparr>l := l1\<rparr>;
            a2 = a1\<lparr>f64 := new\<rparr>
        in (case Unlock (l a2) of Inl e \<Rightarrow> Inl e | Inr l2 \<Rightarrow> Inr (a2\<lparr>l := l2\<rparr>))))"

definition Mutex_Swap :: "float64 \<Rightarrow> atomicFloatMutex \<Rightarrow> fault + float64 \<times> atomicFloatMutex" where
  "Mutex_Swap new a =
     (case Lock (l a) of Inl e \<Rightarrow> Inl e | Inr l1 \<Rightarrow>
       (let a1 = a\<lparr>l := l1\<rparr>;
            old = f64 a1;
            a2 = a1\<lparr>f64 := new\<rparr>
        in (case Unlock (l a2) of Inl e \<Rightarrow> Inl e | Inr l2 \<Rightarrow> Inr (old, a2\<lparr>l := l2\<rparr>))))"

section \<open>Sequences of calls\<close>

text \<open>
  A caller that runs alone issues calls one after the other. A call answers with a value,
  or with nothing (\<open>Store\<close>).
\<close>

datatype call = CallLoad | CallStore float64 | CallSwap float64 | CallAdd float64

datatype reply = Nothing | Value float64

fun CAS2_call :: "call \<Rightarrow> atomicFloatCAS2 \<Rightarrow> (reply \<times> atomicFloatCAS2) option" where
  "CAS2_call CallLoad a = (let (v, a') = CAS2_Load a in Some (Value v, a'))"
| "CAS2_call (CallStore new) a = Some (Nothing, CAS2_Store new a)"
| "CAS2_call (CallSwap new) a = (let (v, a') = CAS2_Swap new a in Some (Value v, a'))"
| "CAS2_call (CallAdd delta) a =
     (case CAS2_Add undisturbed delta a of None \<Rightarrow> None | Some (v, a') \<Rightarrow> Some (Value v, a'))"

fun CAS2_run :: "call list \<Rightarrow> atomicFloatCAS2 \<Rightarrow> (reply list \<times> atomicFloatCAS2) option" where
  "CAS2_run [] a = Some ([], a)"
| "CAS2_run (c # cs) a =
     (case CAS2_call c a of None \<Rightarrow> None
      | Some (r, a') \<Rightarrow>
          (case CAS2_run cs a' of None \<Rightarrow> None | Some (rs, a'') \<Rightarrow> Some (r # rs, a'')))"

fun Mutex_call :: "call \<Rightarrow> atomicFloatMutex \<Rightarrow> fault + reply \<times> atomicFloatMutex" where
  "Mutex_call CallLoad a =
     (case Mutex_Load a of Inl e \<Rightarrow> Inl e | Inr (v, a') \<Rightarrow> Inr (Value v, a'))"
| "Mutex_call (CallStore new) a =
     (case Mutex_Store new a of Inl e \<Rightarrow> Inl e | Inr a' \<Rightarrow> Inr (Nothing, a'))"
| "Mutex_call (CallSwap new) a =
     (case Mutex_Swap new a of Inl e \<Rightarrow> Inl e | Inr (v, a') \<Rightarrow> Inr (Value v, a'))"
| "Mutex_call (CallAdd delta) a =
     (case Mutex_Add delta a of Inl e \<Rightarrow> Inl e | Inr (v, a') \<Rightarrow> Inr (Value v, a'))"

fun Mutex_run :: "call list \<Rightarrow> atomicFloatMutex \<Rightarrow> fault + reply list \<times> atomicFloatMutex" where
  "Mutex_run [] a = Inr ([], a)"
| "Mutex_run (c # cs) a =
     (case Mutex_call c a of Inl e \<Rightarrow> Inl e
      | Inr (r, a') \<Rightarrow>
          (case Mutex_run cs a' of Inl e \<Rightarrow> Inl e | Inr (rs, a'') \<Rightarrow> Inr (r # rs, a'')))"

text \<open>
  The test harness \<open>runQ\<close> lets the adders finish and then reads the value with \<open>Load\<close>:
  the value left by a sequence of calls.
\<close>

definition CAS2_final :: "call list \<Rightarrow> atomicFloatCAS2 \<Rightarrow> float64 option" where
  "CAS2_final cs a =
     (case CAS2_run cs a of None \<Rightarrow> None
      | Some (rs, a') \<Rightarrow> (let (v, a'') = CAS2_Load a' in Some v))"

definition Mutex_final :: "call list \<Rightarrow> atomicFloatMutex \<Rightarrow> fault + float64" where
  "Mutex_final cs a =
     (case Mutex_run cs a of Inl e \<Rightarrow> Inl e
      | Inr (rs, a') \<Rightarrow> (case Mutex_Load a' of Inl e \<Rightarrow> Inl e | Inr (v, a'') \<Rightarrow> Inr v))"

section \<open>The reinterpretation loses nothing\<close>

lemma bits_frombits: "Float64bits (Float64frombits b) = b"
proof (rule bit_word_eqI)
  fix n assume "n < LENGTH(64)"
  then have n: "n < 64" by simp
  show "bit (Float64bits (Float64frombits b)) n = bit b n"
  proof (cases "n = 63")
    case True
    then show ?thesis
      by (simp add: Float64bits_def Float64frombits_def bit_simps)
  next
    case False
    with n have "n < 63" by simp
    then show ?thesis
      by (auto simp add: Float64bits_def Float64frombits_def bit_simps)
  qed
qed

lemma sign_frombits_bits: "sign (Float64frombits (Float64bits f)) = sign f"
  by (auto simp add: Float64bits_def Float64frombits_def bit_simps dest: bit_imp_le_length)

lemma expo_frombits_bits: "expo (Float64frombits (Float64bits f)) = expo f"
  by (rule bit_word_eqI)
    (auto simp add: Float64bits_def Float64frombits_def bit_simps dest: bit_imp_le_length)

lemma fraction_frombits_bits: "fraction (Float64frombits (Float64bits f)) = fraction f"
  by (rule bit_word_eqI)
    (auto simp add: Float64bits_def Float64frombits_def bit_simps dest: bit_imp_le_length)

lemma frombits_bits: "Float64frombits (Float64bits f) = f"
  by (rule float64.expand)
    (simp add: sign_frombits_bits expo_frombits_bits fraction_frombits_bits)

section \<open>The retry loop of \<open>atomicFloatCAS2.Add\<close>\<close>

lemma CAS2_Add_loop_unfold:
  "CAS2_Add_loop env n delta a =
     (if env n (u64 a) = u64 a
      then Some (f64_add (Float64frombits (u64 a)) delta,
                 a\<lparr>u64 := Float64bits (f64_add (Float64frombits (u64 a)) delta)\<rparr>)
      else CAS2_Add_loop env (Suc n) delta (a\<lparr>u64 := env n (u64 a)\<rparr>))"
  by (subst CAS2_Add_loop.simps) (simp add: LoadUint64_def CompareAndSwapUint64_def Let_def)

lemma CAS2_Add_loop_Some:
  assumes "CAS2_Add_loop env n delta a = Some ra"
  shows "\<exists>k. env (n + k) (attempt_cell env n (u64 a) k) = attempt_cell env n (u64 a) k
           \<and> (\<forall>j<k. env (n + j) (attempt_cell env n (u64 a) j) \<noteq> attempt_cell env n (u64 a) j)
           \<and> fst ra = f64_add (Float64frombits (attempt_cell env n (u64 a) k)) delta
           \<and> snd ra = a\<lparr>u64 := Float64bits (fst ra)\<rparr>"
proof -
  let ?P = "\<lambda>(env::env) n delta (a::atomicFloatCAS2) (ra::float64 \<times> atomicFloatCAS2) k.
      env (n + k) (attempt_cell env n (u64 a) k) = attempt_cell env n (u64 a) k
      \<and> (\<forall>j<k. env (n + j) (attempt_cell env n (u64 a) j) \<noteq> attempt_cell env n (u64 a) j)
      \<and> fst ra = f64_add (Float64frombits (attempt_cell env n (u64 a) k)) delta
      \<and> snd ra = a\<lparr>u64 := Float64bits (fst ra)\<rparr>"
  have "\<exists>k. ?P env n delta a ra k"
  proof (rule CAS2_Add_loop.raw_induct
      [where P = "\<lambda>env n delta a ra. \<exists>k. ?P env n delta a ra k"], goal_cases)
    case (1 loop env n delta a ra)
    show ?case
    proof (cases "env n (u64 a) = u64 a")
      case True
      with "1"(2) have "ra = (f64_add (Float64frombits (u64 a)) delta,
          a\<lparr>u64 := Float64bits (f64_add (Float64frombits (u64 a)) delta)\<rparr>)"
        by (simp add: LoadUint64_def CompareAndSwapUint64_def Let_def)
      with True have "?P env n delta a ra 0" by simp
      then show ?thesis ..
    next
      case False
      let ?a = "a\<lparr>u64 := env n (u64 a)\<rparr>"
      from False "1"(2) have "loop env (Suc n) delta ?a = Some ra"
        by (simp add: LoadUint64_def CompareAndSwapUint64_def Let_def)
      from "1"(1) [OF this] obtain k where k: "?P env (Suc n) delta ?a ra k" ..
      have "?P env n delta a ra (Suc k)"
      proof (intro conjI allI impI)
        show "env (n + Suc k) (attempt_cell env n (u64 a) (Suc k))
            = attempt_cell env n (u64 a) (Suc k)"
          using k by simp
        show "fst ra = f64_add (Float64frombits (attempt_cell env n (u64 a) (Suc k))) delta"
          using k by simp
        show "snd ra = a\<lparr>u64 := Float64bits (fst ra)\<rparr>"
          using k by simp
        fix j assume "j < Suc k"
        then show "env (n + j) (attempt_cell env n (u64 a) j) \<noteq> attempt_cell env n (u64 a) j"
          using False k by (cases j) auto
      qed
      then show ?thesis ..
    qed
  next
    case 2
    show ?case by (fact assms)
  qed
  then show ?thesis .
qed

lemma CAS2_Add_loop_returns:
  "env (n + k) (attempt_cell env n (u64 a) k) = attempt_cell env n (u64 a) k
    \<Longrightarrow> CAS2_Add_loop env n delta a \<noteq> None"
proof (induction k arbitrary: n a)
  case 0
  then show ?case
    by (subst CAS2_Add_loop_unfold) simp
next
  case (Suc k)
  show ?case
  proof (cases "env n (u64 a) = u64 a")
    case True
    then show ?thesis
      by (subst CAS2_Add_loop_unfold) simp
  next
    case False
    from Suc.prems have "env (Suc n + k) (attempt_cell env (Suc n) (u64 (a\<lparr>u64 := env n (u64 a)\<rparr>)) k)
        = attempt_cell env (Suc n) (u64 (a\<lparr>u64 := env n (u64 a)\<rparr>)) k"
      by simp
    from Suc.IH [OF this] False show ?thesis
      by (subst CAS2_Add_loop_unfold) simp
  qed
qed

lemma CAS2_Add_alone:
  "CAS2_Add undisturbed delta a =
     Some (f64_add (Float64frombits (u64 a)) delta,
           a\<lparr>u64 := Float64bits (f64_add (Float64frombits (u64 a)) delta)\<rparr>)"
  unfolding CAS2_Add_def
  by (subst CAS2_Add_loop_unfold) (simp add: undisturbed_def)

text \<open>The smallest subnormal, bit pattern 1, used where a concrete run is evaluated.\<close>

lemma f64_add_tiny: "f64_add (Float64 False 0 1) (Float64 False 0 0) = Float64 False 0 1"
  by (simp add: f64_add_def is_nan_def is_inf_def scaled_def magnitude_def round_magnitude_def)

lemma frombits_1: "Float64frombits 1 = Float64 False 0 1"
  by (simp add: Float64frombits_def)

lemma bits_tiny: "Float64bits (Float64 False 0 1) = 1"
  by (simp add: Float64bits_def)

section \<open>The retry loop of \<open>atomicFloatCAS.Add\<close>\<close>

text \<open>The \<open>for\<close> loop and the \<open>goto\<close> loop return the same results in every environment.\<close>

lemma CAS_Add_loop_unfold:
  "CAS_Add_loop env n delta a =
     (if env n (atomicFloatCAS.u64 a) = atomicFloatCAS.u64 a
      then Some (f64_add (Float64frombits (atomicFloatCAS.u64 a)) delta,
                 a\<lparr>atomicFloatCAS.u64 := Float64bits (f64_add (Float64frombits (atomicFloatCAS.u64 a)) delta)\<rparr>)
      else CAS_Add_loop env (Suc n) delta (a\<lparr>atomicFloatCAS.u64 := env n (atomicFloatCAS.u64 a)\<rparr>))"
  by (subst CAS_Add_loop.simps) (simp add: LoadUint64_def CompareAndSwapUint64_def Let_def)

lemma CAS_loop_imp_CAS2_loop:
  assumes "CAS_Add_loop env n delta a = Some ra"
  shows "CAS2_Add_loop env n delta \<lparr>u64 = atomicFloatCAS.u64 a\<rparr>
           = Some (fst ra, \<lparr>u64 = atomicFloatCAS.u64 (snd ra)\<rparr>)"
proof (rule CAS_Add_loop.raw_induct
    [where P = "\<lambda>env n delta a ra. CAS2_Add_loop env n delta \<lparr>u64 = atomicFloatCAS.u64 a\<rparr>
           = Some (fst ra, \<lparr>u64 = atomicFloatCAS.u64 (snd ra)\<rparr>)"], goal_cases)
  case (1 loop env n delta a ra)
  show ?case
  proof (cases "env n (atomicFloatCAS.u64 a) = atomicFloatCAS.u64 a")
    case True
    with "1"(2) show ?thesis
      by (subst CAS2_Add_loop_unfold)
        (auto simp add: LoadUint64_def CompareAndSwapUint64_def Let_def)
  next
    case False
    with "1"(2) have "loop env (Suc n) delta (a\<lparr>atomicFloatCAS.u64 := env n (atomicFloatCAS.u64 a)\<rparr>) = Some ra"
      by (simp add: LoadUint64_def CompareAndSwapUint64_def Let_def)
    from "1"(1) [OF this] False show ?thesis
      by (subst CAS2_Add_loop_unfold) simp
  qed
next
  case 2
  show ?case by (fact assms)
qed

lemma CAS2_loop_imp_CAS_loop:
  assumes "CAS2_Add_loop env n delta a = Some ra"
  shows "CAS_Add_loop env n delta \<lparr>atomicFloatCAS.u64 = u64 a\<rparr>
           = Some (fst ra, \<lparr>atomicFloatCAS.u64 = u64 (snd ra)\<rparr>)"
proof (rule CAS2_Add_loop.raw_induct
    [where P = "\<lambda>env n delta a ra. CAS_Add_loop env n delta \<lparr>atomicFloatCAS.u64 = u64 a\<rparr>
           = Some (fst ra, \<lparr>atomicFloatCAS.u64 = u64 (snd ra)\<rparr>)"], goal_cases)
  case (1 loop env n delta a ra)
  show ?case
  proof (cases "env n (u64 a) = u64 a")
    case True
    with "1"(2) show ?thesis
      by (subst CAS_Add_loop_unfold)
        (auto simp add: LoadUint64_def CompareAndSwapUint64_def Let_def)
  next
    case False
    with "1"(2) have "loop env (Suc n) delta (a\<lparr>u64 := env n (u64 a)\<rparr>) = Some ra"
      by (simp add: LoadUint64_def CompareAndSwapUint64_def Let_def)
    from "1"(1) [OF this] False show ?thesis
      by (subst CAS_Add_loop_unfold) simp
  qed
next
  case 2
  show ?case by (fact assms)
qed

lemma CAS_loop_eq_CAS2_loop:
  "map_option (map_prod id atomicFloatCAS.u64) (CAS_Add_loop env n delta \<lparr>atomicFloatCAS.u64 = w\<rparr>)
     = map_option (map_prod id u64) (CAS2_Add_loop env n delta \<lparr>u64 = w\<rparr>)"
proof (cases "CAS_Add_loop env n delta \<lparr>atomicFloatCAS.u64 = w\<rparr>")
  case None
  show ?thesis
  proof (cases "CAS2_Add_loop env n delta \<lparr>u64 = w\<rparr>")
    case None
    with \<open>CAS_Add_loop env n delta \<lparr>atomicFloatCAS.u64 = w\<rparr> = None\<close> show ?thesis by simp
  next
    case (Some ra)
    from CAS2_loop_imp_CAS_loop [OF this]
      \<open>CAS_Add_loop env n delta \<lparr>atomicFloatCAS.u64 = w\<rparr> = None\<close>
    show ?thesis by simp
  qed
next
  case (Some ra)
  from CAS_loop_imp_CAS2_loop [OF this] Some show ?thesis
    by (cases ra) simp
qed

section \<open>NaN results of the addition\<close>

lemma expo_of_nat_not_2047: "e < 2047 \<Longrightarrow> (of_nat e :: 11 word) \<noteq> 2047"
proof
  assume e: "e < 2047" and eq: "(of_nat e :: 11 word) = 2047"
  from eq have "unat (of_nat e :: 11 word) = unat (2047 :: 11 word)" by simp
  with e show False by (simp add: unat_of_nat)
qed





section \<open>The locking variant simulates the bitwise one\<close>

text \<open>
  The two states correspond when the lock is free and the field is the double of the
  stored bit pattern; every call keeps them so and answers the same.
\<close>

lemma call_simulation:
  "\<exists>r c'. CAS2_call x c = Some (r, c')
     \<and> Mutex_call x \<lparr>f64 = Float64frombits (u64 c), l = \<lparr>writer = False, readers = 0\<rparr>\<rparr>
         = Inr (r, \<lparr>f64 = Float64frombits (u64 c'), l = \<lparr>writer = False, readers = 0\<rparr>\<rparr>)"
proof (cases x)
  case CallLoad
  then show ?thesis
    by (simp add: CAS2_Load_def LoadUint64_def Mutex_Load_def RLock_def RUnlock_def)
next
  case (CallStore v)
  then show ?thesis
    by (simp add: CAS2_Store_def StoreUint64_def Mutex_Store_def Lock_def Unlock_def
        frombits_bits)
next
  case (CallSwap v)
  then show ?thesis
    by (simp add: CAS2_Swap_def SwapUint64_def Mutex_Swap_def Lock_def Unlock_def
        frombits_bits)
next
  case (CallAdd d)
  then show ?thesis
    by (simp add: CAS2_Add_alone Mutex_Add_def Lock_def Unlock_def frombits_bits)
qed

lemma run_simulation:
  "\<exists>rs c'. CAS2_run cs c = Some (rs, c')
     \<and> Mutex_run cs \<lparr>f64 = Float64frombits (u64 c), l = \<lparr>writer = False, readers = 0\<rparr>\<rparr>
         = Inr (rs, \<lparr>f64 = Float64frombits (u64 c'), l = \<lparr>writer = False, readers = 0\<rparr>\<rparr>)"
proof (induction cs arbitrary: c)
  case Nil
  show ?case by simp
next
  case (Cons x cs)
  from call_simulation [of x c] obtain r c1 where
    step: "CAS2_call x c = Some (r, c1)"
      "Mutex_call x \<lparr>f64 = Float64frombits (u64 c), l = \<lparr>writer = False, readers = 0\<rparr>\<rparr>
         = Inr (r, \<lparr>f64 = Float64frombits (u64 c1), l = \<lparr>writer = False, readers = 0\<rparr>\<rparr>)"
    by blast
  from Cons.IH [of c1] obtain rs c2 where
    rest: "CAS2_run cs c1 = Some (rs, c2)"
      "Mutex_run cs \<lparr>f64 = Float64frombits (u64 c1), l = \<lparr>writer = False, readers = 0\<rparr>\<rparr>
         = Inr (rs, \<lparr>f64 = Float64frombits (u64 c2), l = \<lparr>writer = False, readers = 0\<rparr>\<rparr>)"
    by blast
  from step rest show ?case by simp
qed

lemma CAS2_swaps:
  "\<exists>outs c'. CAS2_run (map CallSwap vs) c = Some (map Value outs, c')
     \<and> add_mset (fst (CAS2_Load c')) (mset outs) = add_mset (fst (CAS2_Load c)) (mset vs)"
proof (induction vs arbitrary: c)
  case Nil
  show ?case by simp
next
  case (Cons v vs)
  let ?c1 = "c\<lparr>u64 := Float64bits v\<rparr>"
  from Cons.IH [of ?c1] obtain outs c' where
    rest: "CAS2_run (map CallSwap vs) ?c1 = Some (map Value outs, c')"
      "add_mset (fst (CAS2_Load c')) (mset outs) = add_mset (fst (CAS2_Load ?c1)) (mset vs)"
    by blast
  have "CAS2_run (map CallSwap (v # vs)) c = Some (map Value (Float64frombits (u64 c) # outs), c')"
    using rest(1) by (simp add: CAS2_Swap_def SwapUint64_def)
  moreover have "add_mset (fst (CAS2_Load c')) (mset (Float64frombits (u64 c) # outs))
      = add_mset (fst (CAS2_Load c)) (mset (v # vs))"
    using rest(2) by (simp add: CAS2_Load_def LoadUint64_def frombits_bits)
  ultimately show ?case by blast
qed

section \<open>Integers that convert and add without rounding\<close>

text \<open>
  A magnitude \<open>q * 2 ^ k\<close> with a 53-bit significand \<open>q\<close> is a normal number and is not rounded.
  Every integer up to \<open>2 ^ 53\<close> has this form, so adding 1.0 to it is exact; at \<open>2 ^ 53\<close> the
  sum \<open>2 ^ 53 + 1\<close> lies halfway between two neighbours and goes back to the even one, \<open>2 ^ 53\<close>.
\<close>

lemma floorlog_significand:
  assumes "2 ^ 52 \<le> q" "q < 2 ^ 53" "r < 2 ^ k"
  shows "floorlog 2 (q * 2 ^ k + r) = 53 + k"
proof (rule antisym)
  have "q * 2 ^ k + r < (q + 1) * 2 ^ k"
    using assms(3) by (simp add: algebra_simps)
  also have "\<dots> \<le> 2 ^ 53 * 2 ^ k"
    using assms(2) by (intro mult_right_mono) simp_all
  finally have "q * 2 ^ k + r < 2 ^ (53 + k)"
    by (simp add: power_add)
  then show "floorlog 2 (q * 2 ^ k + r) \<le> 53 + k"
    by (intro floorlog_leI) simp_all
next
  have "(2::nat) ^ (53 + k - 1) = 2 ^ 52 * 2 ^ k"
    by (simp add: power_add)
  also have "\<dots> \<le> q * 2 ^ k"
    using assms(1) by (intro mult_right_mono) simp_all
  finally have "(2::nat) ^ (53 + k - 1) \<le> q * 2 ^ k + r"
    by simp
  then show "53 + k \<le> floorlog 2 (q * 2 ^ k + r)"
    by (intro floorlog_geI) simp_all
qed

lemma round_magnitude_split:
  assumes "2 ^ 52 \<le> q" "q < 2 ^ 53" "r < 2 ^ k" "1 \<le> k"
  shows "round_magnitude s (q * 2 ^ k + r) =
     (let half = 2 ^ (k - 1);
          q1 = (if half < r \<or> (r = half \<and> odd q) then q + 1 else q);
          q2 = (if q1 = 2 ^ 53 then 2 ^ 52 else q1);
          e = (if q1 = 2 ^ 53 then k + 2 else k + 1)
      in if 2047 \<le> e then Float64 s 2047 0
         else Float64 s (of_nat e) (of_nat (q2 - 2 ^ 52)))"
proof -
  let ?m = "q * 2 ^ k + r"
  have "(2::nat) ^ 53 * 1 \<le> 2 ^ 52 * 2 ^ k"
    using assms(4) by (cases k) simp_all
  also have "\<dots> \<le> q * 2 ^ k"
    using assms(1) by (intro mult_right_mono) simp_all
  finally have big: "\<not> ?m < 2 ^ 52" "\<not> ?m < 2 ^ 53"
    by simp_all
  have fl: "floorlog 2 ?m - 53 = k"
    using floorlog_significand [OF assms(1,2,3)] by simp
  have dv: "?m div 2 ^ k = q"
    using assms(3) by simp
  have md: "?m mod 2 ^ k = r"
    using assms(3) by simp
  show ?thesis
    unfolding round_magnitude_def
    by (simp only: big if_False fl Let_def dv md)
qed

lemma round_magnitude_exact:
  assumes "2 ^ 52 \<le> q" "q < 2 ^ 53" "1 \<le> k" "k < 2046"
  shows "round_magnitude s (q * 2 ^ k) = Float64 s (of_nat (k + 1)) (of_nat (q - 2 ^ 52))"
proof -
  have "(0::nat) < 2 ^ k" by simp
  from round_magnitude_split [OF assms(1,2) this assms(3), of s] assms(2,4)
  show ?thesis by (simp add: Let_def)
qed

lemma magnitude_normal:
  assumes "2 ^ 52 \<le> q" "q < 2 ^ 53" "k < 2046"
  shows "magnitude (Float64 s (of_nat (k + 1)) (of_nat (q - 2 ^ 52))) = q * 2 ^ k"
    and "expo (Float64 s (of_nat (k + 1)) (of_nat (q - 2 ^ 52))) \<noteq> 2047"
proof -
  define E :: "11 word" where "E = of_nat (k + 1)"
  define F :: "52 word" where "F = of_nat (q - 2 ^ 52)"
  have e: "unat E = k + 1"
    unfolding E_def using assms(3) by (subst unat_of_nat) simp
  then have e0: "E \<noteq> 0"
    by auto
  have e1: "E \<noteq> 2047"
    unfolding E_def using assms(3) by (intro expo_of_nat_not_2047) simp
  have f: "unat F = q - 2 ^ 52"
    unfolding F_def using assms(2) by (subst unat_of_nat) simp
  have "magnitude (Float64 s E F) = q * 2 ^ k"
    using assms(1) by (simp add: magnitude_def e e0 f)
  then show "magnitude (Float64 s (of_nat (k + 1)) (of_nat (q - 2 ^ 52))) = q * 2 ^ k"
    unfolding E_def F_def .
  have "expo (Float64 s E F) \<noteq> 2047"
    using e1 by simp
  then show "expo (Float64 s (of_nat (k + 1)) (of_nat (q - 2 ^ 52))) \<noteq> 2047"
    unfolding E_def F_def .
qed

lemma significand_of_nat:
  assumes "0 < (n::nat)" "n \<le> 2 ^ 53"
  shows "\<exists>(q::nat) k. 2 ^ 52 \<le> q \<and> q < 2 ^ 53 \<and> 1 \<le> k \<and> k < 2046 \<and> n * 2 ^ 1074 = q * 2 ^ k"
proof (cases "n = 2 ^ 53")
  case True
  have "(2::nat) ^ 53 * 2 ^ 1074 = 2 ^ 52 * 2 ^ 1075"
    by (simp only: power_add [symmetric]) simp
  with True have "(2::nat) ^ 52 \<le> 2 ^ 52 \<and> (2::nat) ^ 52 < 2 ^ 53 \<and> (1::nat) \<le> 1075
      \<and> (1075::nat) < 2046 \<and> n * 2 ^ 1074 = 2 ^ 52 * 2 ^ 1075"
    by simp
  then show ?thesis by blast
next
  case False
  with assms(2) have small: "n < 2 ^ 53" by simp
  define L where "L = floorlog 2 n"
  from floorlog_bounds [of n 2] assms(1)
  have lo: "2 ^ (L - 1) \<le> n" and hi: "n < 2 ^ L"
    by (simp_all add: L_def)
  have L1: "1 \<le> L"
    using hi assms(1) by (cases L) simp_all
  have L53: "L \<le> 53"
    unfolding L_def using small by (intro floorlog_leI) simp_all
  define q where "q = n * 2 ^ (53 - L)"
  have "(2::nat) ^ 52 = 2 ^ (L - 1) * 2 ^ (53 - L)"
    using L1 L53 by (simp add: power_add [symmetric])
  also have "\<dots> \<le> n * 2 ^ (53 - L)"
    using lo by (intro mult_right_mono) simp_all
  finally have q_lo: "2 ^ 52 \<le> q"
    by (simp add: q_def)
  have "n * 2 ^ (53 - L) < 2 ^ L * 2 ^ (53 - L)"
    using hi by (intro mult_strict_right_mono) simp_all
  also have "\<dots> = (2::nat) ^ 53"
    using L53 by (simp add: power_add [symmetric])
  finally have q_hi: "q < 2 ^ 53"
    by (simp add: q_def)
  have "q * 2 ^ (1021 + L) = n * (2 ^ (53 - L) * 2 ^ (1021 + L))"
    by (simp add: q_def)
  also have "(2::nat) ^ (53 - L) * 2 ^ (1021 + L) = 2 ^ 1074"
    using L53 by (simp only: power_add [symmetric]) simp
  finally have "n * 2 ^ 1074 = q * 2 ^ (1021 + L)"
    by simp
  with q_lo q_hi L1 L53 have "2 ^ 52 \<le> q \<and> q < 2 ^ 53 \<and> 1 \<le> 1021 + L \<and> 1021 + L < 2046
      \<and> n * 2 ^ 1074 = q * 2 ^ (1021 + L)"
    by simp
  then show ?thesis by blast
qed

lemma float64_of_int_exact:
  assumes "n \<le> 2 ^ 53"
  shows "magnitude (float64_of_int (int n)) = n * 2 ^ 1074"
    and "\<not> sign (float64_of_int (int n))"
    and "expo (float64_of_int (int n)) \<noteq> 2047"
proof -
  have "magnitude (float64_of_int (int n)) = n * 2 ^ 1074
      \<and> \<not> sign (float64_of_int (int n)) \<and> expo (float64_of_int (int n)) \<noteq> 2047"
  proof (cases "n = 0")
    case True
    then show ?thesis
      by (simp add: float64_of_int_def magnitude_def)
  next
    case False
    then have pos: "0 < n" by simp
    from significand_of_nat [OF pos assms] obtain q k where
      qk: "2 ^ 52 \<le> q" "q < 2 ^ 53" "1 \<le> k" "k < 2046" "n * 2 ^ 1074 = q * 2 ^ k"
      by blast
    have "float64_of_int (int n) = round_magnitude False (n * 2 ^ 1074)"
      using pos by (simp add: float64_of_int_def)
    also have "\<dots> = Float64 False (of_nat (k + 1)) (of_nat (q - 2 ^ 52))"
      unfolding qk(5) by (rule round_magnitude_exact [OF qk(1-4)])
    finally have eq: "float64_of_int (int n) = Float64 False (of_nat (k + 1)) (of_nat (q - 2 ^ 52))" .
    show ?thesis
      unfolding eq qk(5)
      using magnitude_normal [OF qk(1,2,4), of False] by simp
  qed
  then show "magnitude (float64_of_int (int n)) = n * 2 ^ 1074"
    and "\<not> sign (float64_of_int (int n))"
    and "expo (float64_of_int (int n)) \<noteq> 2047"
    by simp_all
qed

lemma float64_of_int_0: "float64_of_int 0 = Float64 False 0 0"
  by (simp add: float64_of_int_def)

lemma f64_add_one:
  assumes "n \<le> 2 ^ 53"
  shows "f64_add (float64_of_int (int n)) (float64_of_int 1) = float64_of_int (int n + 1)"
proof -
  let ?x = "float64_of_int (int n)" and ?y = "float64_of_int 1"
  have one: "float64_of_int 1 = float64_of_int (int 1)" by simp
  have x: "scaled ?x = int (n * 2 ^ 1074)" "\<not> is_nan ?x" "\<not> is_inf ?x"
    using float64_of_int_exact [OF assms]
    by (simp_all only: scaled_def is_nan_def is_inf_def if_False simp_thms)
  have "(1::nat) \<le> 2 ^ 53" by simp
  from float64_of_int_exact [OF this]
  have y: "scaled ?y = int (1 * 2 ^ 1074)" "\<not> is_nan ?y" "\<not> is_inf ?y"
    unfolding one
    by (simp_all only: scaled_def is_nan_def is_inf_def if_False simp_thms)
  have z: "scaled ?x + scaled ?y = int ((n + 1) * 2 ^ 1074)"
    unfolding x y by (simp only: of_nat_add [symmetric] add_mult_distrib)
  have pos: "0 < (n + 1) * (2::nat) ^ 1074"
    by simp
  have "f64_add ?x ?y = round_magnitude False ((n + 1) * 2 ^ 1074)"
    unfolding f64_add_def Let_def z
    using x(2,3) y(2,3) pos
    by (simp only: if_False of_nat_eq_0_iff of_nat_less_0_iff abs_of_nat nat_int
        neq0_conv [symmetric] simp_thms)
  also have "\<dots> = float64_of_int (int n + 1)"
  proof -
    have "int n + 1 = int (n + 1)" by simp
    then show ?thesis
      unfolding float64_of_int_def
      by (simp only: of_nat_eq_0_iff of_nat_less_0_iff abs_of_nat nat_int if_False
          add_is_0 one_neq_zero simp_thms)
  qed
  finally show ?thesis .
qed

lemma float64_of_int_2_53: "float64_of_int (2 ^ 53) = Float64 False 1076 0"
proof -
  have "float64_of_int (2 ^ 53) = round_magnitude False (2 ^ 52 * 2 ^ 1075)"
    by (simp add: float64_of_int_def)
  also have "\<dots> = Float64 False (of_nat (1075 + 1)) (of_nat (2 ^ 52 - 2 ^ 52))"
    by (rule round_magnitude_exact) simp_all
  finally show ?thesis by simp
qed

lemma float64_of_int_2_53_plus_1: "float64_of_int (2 ^ 53 + 1) = Float64 False 1076 0"
proof -
  have "float64_of_int (2 ^ 53 + 1) = round_magnitude False (2 ^ 52 * 2 ^ 1075 + 2 ^ 1074)"
    by (simp add: float64_of_int_def)
  also have "\<dots> = Float64 False 1076 0"
    by (subst round_magnitude_split) simp_all
  finally show ?thesis .
qed

lemma float64_of_int_2_53_plus_2: "float64_of_int (2 ^ 53 + 2) = Float64 False 1076 1"
proof -
  have "float64_of_int (2 ^ 53 + 2) = round_magnitude False ((2 ^ 52 + 1) * 2 ^ 1075)"
    by (simp add: float64_of_int_def)
  also have "\<dots> = Float64 False (of_nat (1075 + 1)) (of_nat (2 ^ 52 + 1 - 2 ^ 52))"
    by (rule round_magnitude_exact) simp_all
  finally show ?thesis by simp
qed

lemma representable_2_53_plus_2: "representable (2 ^ 53 + 2)"
proof -
  have "magnitude (Float64 False (of_nat (1075 + 1)) (of_nat (2 ^ 52 + 1 - 2 ^ 52)))
      = (2 ^ 52 + 1) * 2 ^ 1075"
    by (rule magnitude_normal) simp_all
  then have "magnitude (Float64 False 1076 1) = (2 ^ 52 + 1) * 2 ^ 1075"
    by simp
  then show ?thesis
    by (simp add: representable_def float64_of_int_2_53_plus_2 [simplified] scaled_def)
qed

lemma repeated_add_one:
  "((\<lambda>v. f64_add v (float64_of_int 1)) ^^ n) (float64_of_int 0)
     = float64_of_int (int (min n (2 ^ 53)))"
proof (induction n)
  case 0
  show ?case by simp
next
  case (Suc n)
  show ?case
  proof (cases "n < 2 ^ 53")
    case True
    then have "n \<le> 2 ^ 53" by simp
    from f64_add_one [OF this] Suc.IH True show ?thesis
      by (simp add: min_def add.commute)
  next
    case False
    have "(2::nat) ^ 53 \<le> 2 ^ 53" by simp
    from f64_add_one [OF this]
    have "f64_add (float64_of_int (2 ^ 53)) (float64_of_int 1) = float64_of_int (2 ^ 53)"
      by (simp add: float64_of_int_2_53 [simplified] float64_of_int_2_53_plus_1 [simplified])
    with Suc.IH False show ?thesis
      by (simp add: min_def)
  qed
qed

section \<open>The value left by a run of additions\<close>

lemma final_simulation:
  "\<exists>v. CAS2_final cs c = Some v
     \<and> Mutex_final cs \<lparr>f64 = Float64frombits (u64 c), l = \<lparr>writer = False, readers = 0\<rparr>\<rparr> = Inr v"
proof -
  from run_simulation [of cs c] obtain rs c' where
    "CAS2_run cs c = Some (rs, c')"
    "Mutex_run cs \<lparr>f64 = Float64frombits (u64 c), l = \<lparr>writer = False, readers = 0\<rparr>\<rparr>
       = Inr (rs, \<lparr>f64 = Float64frombits (u64 c'), l = \<lparr>writer = False, readers = 0\<rparr>\<rparr>)"
    by blast
  then show ?thesis
    by (simp add: CAS2_final_def Mutex_final_def CAS2_Load_def LoadUint64_def
        Mutex_Load_def RLock_def RUnlock_def)
qed

lemma CAS2_final_adds:
  "CAS2_final (replicate n (CallAdd d)) a
     = Some (((\<lambda>v. f64_add v d) ^^ n) (Float64frombits (u64 a)))"
proof (induction n arbitrary: a)
  case 0
  show ?case
    by (simp add: CAS2_final_def CAS2_Load_def LoadUint64_def)
next
  case (Suc n)
  let ?a1 = "a\<lparr>u64 := Float64bits (f64_add (Float64frombits (u64 a)) d)\<rparr>"
  have "CAS2_final (replicate (Suc n) (CallAdd d)) a = CAS2_final (replicate n (CallAdd d)) ?a1"
    by (simp add: CAS2_final_def CAS2_Add_alone split: option.splits)
  also have "\<dots> = Some (((\<lambda>v. f64_add v d) ^^ n) (Float64frombits (u64 ?a1)))"
    by (rule Suc.IH)
  also have "\<dots> = Some (((\<lambda>v. f64_add v d) ^^ Suc n) (Float64frombits (u64 a)))"
    by (simp add: frombits_bits funpow_Suc_right del: funpow.simps)
  finally show ?case .
qed

lemma accumulate_ones_CAS2:
  "CAS2_final (replicate n (CallAdd (float64_of_int 1))) (NewAtomicFloatCAS2 (float64_of_int 0))
     = Some (float64_of_int (int (min n (2 ^ 53))))"
  and accumulate_ones_Mutex:
  "Mutex_final (replicate n (CallAdd (float64_of_int 1))) (NewAtomicFloatMutex (float64_of_int 0))
     = Inr (float64_of_int (int (min n (2 ^ 53))))"
proof -
  let ?cs = "replicate n (CallAdd (float64_of_int 1))"
  show cas: "CAS2_final ?cs (NewAtomicFloatCAS2 (float64_of_int 0))
     = Some (float64_of_int (int (min n (2 ^ 53))))"
    unfolding CAS2_final_adds
    by (simp only: NewAtomicFloatCAS2_def atomicFloatCAS2.simps frombits_bits repeated_add_one)
  from final_simulation [of ?cs "NewAtomicFloatCAS2 (float64_of_int 0)"]
  have "Mutex_final ?cs \<lparr>f64 = Float64frombits (u64 (NewAtomicFloatCAS2 (float64_of_int 0))),
      l = \<lparr>writer = False, readers = 0\<rparr>\<rparr> = Inr (float64_of_int (int (min n (2 ^ 53))))"
    unfolding cas by blast
  then show "Mutex_final ?cs (NewAtomicFloatMutex (float64_of_int 0))
     = Inr (float64_of_int (int (min n (2 ^ 53))))"
    by (simp only: NewAtomicFloatCAS2_def NewAtomicFloatMutex_def atomicFloatCAS2.simps
        frombits_bits)
qed

lemma float64_of_int_2000: "float64_of_int (int (4 * 500)) = Float64 False 1033 4292493394837504"
proof -
  have "float64_of_int (int (4 * 500)) = round_magnitude False ((2000 * 2 ^ 42) * 2 ^ 1032)"
    by (simp add: float64_of_int_def)
  also have "\<dots> = Float64 False (of_nat (1032 + 1)) (of_nat (2000 * 2 ^ 42 - 2 ^ 52))"
    by (rule round_magnitude_exact) simp_all
  finally show ?thesis by simp
qed

lemma bits_2000: "Float64bits (Float64 False 1033 4292493394837504) = 4656510908468559872"
  by (simp add: Float64bits_def)

section \<open>The operations, one call at a time\<close>

text \<open>
  C1. \<open>Add\<close> of the bitwise variant. Whatever the other goroutines do: when the call
  returns \<open>r\<close> in state \<open>a'\<close>, some attempt \<open>k\<close> was left undisturbed and every attempt
  before it was disturbed (its compare-and-swap failed and the loop loaded afresh); with
  \<open>old'\<close> the bit pattern that attempt loaded, \<open>r\<close> is the sum
  \<open>Float64frombits old' + delta\<close>, the stored pattern is \<open>Float64bits\<close> of that sum, and
  \<open>r\<close> is \<open>Float64frombits\<close> of the stored pattern. The call returns as soon as one attempt
  is undisturbed. A caller that runs alone gets the sum computed from the pattern it
  found, installed in its place, at the first attempt.
\<close>

theorem CAS2_Add_compare_and_swap:
  "(CAS2_Add env delta a = Some (r, a') \<longrightarrow>
      (\<exists>k. env k (attempt_cell env 0 (u64 a) k) = attempt_cell env 0 (u64 a) k
         \<and> (\<forall>j<k. env j (attempt_cell env 0 (u64 a) j) \<noteq> attempt_cell env 0 (u64 a) j)
         \<and> r = f64_add (Float64frombits (attempt_cell env 0 (u64 a) k)) delta
         \<and> u64 a' = Float64bits (f64_add (Float64frombits (attempt_cell env 0 (u64 a) k)) delta)
         \<and> r = Float64frombits (u64 a')))
   \<and> (env k (attempt_cell env 0 (u64 a) k) = attempt_cell env 0 (u64 a) k
        \<longrightarrow> CAS2_Add env delta a \<noteq> None)
   \<and> CAS2_Add undisturbed delta a =
       Some (f64_add (Float64frombits (u64 a)) delta,
             a\<lparr>u64 := Float64bits (f64_add (Float64frombits (u64 a)) delta)\<rparr>)"
proof (intro conjI impI)
  assume "CAS2_Add env delta a = Some (r, a')"
  then have "CAS2_Add_loop env 0 delta a = Some (r, a')"
    by (simp add: CAS2_Add_def)
  from CAS2_Add_loop_Some [OF this] obtain k where
    k: "env k (attempt_cell env 0 (u64 a) k) = attempt_cell env 0 (u64 a) k"
       "\<forall>j<k. env j (attempt_cell env 0 (u64 a) j) \<noteq> attempt_cell env 0 (u64 a) j"
       "r = f64_add (Float64frombits (attempt_cell env 0 (u64 a) k)) delta"
       "a' = a\<lparr>u64 := Float64bits r\<rparr>"
    by auto
  from k(3,4) have "u64 a' = Float64bits (f64_add (Float64frombits (attempt_cell env 0 (u64 a) k)) delta)"
    by simp
  moreover from k(4) have "r = Float64frombits (u64 a')"
    by (simp add: frombits_bits)
  ultimately show "\<exists>k. env k (attempt_cell env 0 (u64 a) k) = attempt_cell env 0 (u64 a) k
         \<and> (\<forall>j<k. env j (attempt_cell env 0 (u64 a) j) \<noteq> attempt_cell env 0 (u64 a) j)
         \<and> r = f64_add (Float64frombits (attempt_cell env 0 (u64 a) k)) delta
         \<and> u64 a' = Float64bits (f64_add (Float64frombits (attempt_cell env 0 (u64 a) k)) delta)
         \<and> r = Float64frombits (u64 a')"
    using k(1,2,3) by blast
next
  assume "env k (attempt_cell env 0 (u64 a) k) = attempt_cell env 0 (u64 a) k"
  then show "CAS2_Add env delta a \<noteq> None"
    unfolding CAS2_Add_def by (intro CAS2_Add_loop_returns [where k = k]) simp
next
  show "CAS2_Add undisturbed delta a =
       Some (f64_add (Float64frombits (u64 a)) delta,
             a\<lparr>u64 := Float64bits (f64_add (Float64frombits (u64 a)) delta)\<rparr>)"
    by (rule CAS2_Add_alone)
qed

theorem CAS2_Add_compare_and_swap_witness:
  "CAS2_Add (\<lambda>n c. if n = 0 then c + 1 else c) (Float64 False 0 0) \<lparr>u64 = 0\<rparr>
     = Some (Float64 False 0 1, \<lparr>u64 = 1\<rparr>)
   \<and> (\<lambda>n c. if n = 0 then c + 1 else c) (0::nat) (0::64 word) \<noteq> 0
   \<and> attempt_cell (\<lambda>n c. if n = 0 then c + 1 else c) 0 0 1 = 1
   \<and> Float64 False 0 1 = f64_add (Float64frombits 1) (Float64 False 0 0)
   \<and> u64 \<lparr>u64 = 1\<rparr> = Float64bits (f64_add (Float64frombits 1) (Float64 False 0 0))
   \<and> Float64 False 0 1 = Float64frombits (u64 \<lparr>u64 = 1\<rparr>)
   \<and> CAS2_Add (\<lambda>n c. if n = 0 then c + 1 else c) (Float64 False 0 0) \<lparr>u64 = 0\<rparr> \<noteq> None"
proof -
  let ?env = "\<lambda>(n::nat) (c::64 word). if n = 0 then c + 1 else c"
  have run: "CAS2_Add ?env (Float64 False 0 0) \<lparr>u64 = 0\<rparr> = Some (Float64 False 0 1, \<lparr>u64 = 1\<rparr>)"
    unfolding CAS2_Add_def
    apply (subst CAS2_Add_loop_unfold)
    apply simp
    apply (subst CAS2_Add_loop_unfold)
    apply (simp add: frombits_1 f64_add_tiny bits_tiny)
    done
  have quiet: "?env 1 (attempt_cell ?env 0 (u64 \<lparr>u64 = 0\<rparr>) 1) = attempt_cell ?env 0 (u64 \<lparr>u64 = 0\<rparr>) 1"
    by simp
  from CAS2_Add_compare_and_swap [of ?env "Float64 False 0 0" "\<lparr>u64 = 0\<rparr>"
      "Float64 False 0 1" "\<lparr>u64 = 1\<rparr>" 1] run quiet
  show ?thesis
    by (simp add: frombits_1 f64_add_tiny bits_tiny)
qed

text \<open>
  C4. \<open>Swap\<close> returns the value held before the call and leaves the container holding the
  new one. In the bitwise variant this holds in every state, and the stored integer becomes
  \<open>Float64bits v\<close>; in the locking variant it holds in every state whose lock is free, which
  the call leaves free again.
\<close>

theorem Swap_returns_previous_value:
  "CAS2_Swap v a = (Float64frombits (u64 a), a\<lparr>u64 := Float64bits v\<rparr>)
   \<and> fst (CAS2_Swap v a) = fst (CAS2_Load a)
   \<and> fst (CAS2_Load (snd (CAS2_Swap v a))) = v
   \<and> Mutex_Swap v \<lparr>f64 = x, l = \<lparr>writer = False, readers = 0\<rparr>\<rparr>
       = Inr (x, \<lparr>f64 = v, l = \<lparr>writer = False, readers = 0\<rparr>\<rparr>)"
  by (simp add: CAS2_Swap_def CAS2_Load_def SwapUint64_def LoadUint64_def frombits_bits
      Mutex_Swap_def Lock_def Unlock_def)

text \<open>
  C6. \<open>Float64bits\<close> and \<open>Float64frombits\<close> are inverse bijections between the doubles
  (finite, infinite and NaN, each with its sign and payload) and the 64-bit integers, so a
  \<open>Load\<close> right after \<open>Store x\<close>, or right after the constructor, returns exactly \<open>x\<close>.
\<close>

theorem Float64bits_bijection:
  "Float64frombits (Float64bits x) = x
   \<and> Float64bits (Float64frombits u) = u
   \<and> bij Float64bits \<and> bij Float64frombits
   \<and> fst (CAS2_Load (CAS2_Store x a)) = x
   \<and> fst (CAS2_Load (NewAtomicFloatCAS2 x)) = x"
proof -
  have "bij Float64bits"
    by (rule bijI') (metis frombits_bits, metis bits_frombits)
  moreover have "bij Float64frombits"
    by (rule bijI') (metis bits_frombits, metis frombits_bits)
  ultimately show ?thesis
    by (simp add: frombits_bits bits_frombits CAS2_Load_def CAS2_Store_def
        NewAtomicFloatCAS2_def LoadUint64_def StoreUint64_def)
qed

text \<open>
  C8. \<open>Load\<close> changes nothing: the bitwise variant returns the state it was given, so a
  second \<open>Load\<close> returns the same value; the locking variant returns the field and the
  state it was given, lock included, whenever no writer holds the lock, however many
  readers do.
\<close>

theorem Load_leaves_state:
  "CAS2_Load a = (Float64frombits (u64 a), a)
   \<and> CAS2_Load (snd (CAS2_Load a)) = CAS2_Load a
   \<and> Mutex_Load \<lparr>f64 = x, l = \<lparr>writer = False, readers = n\<rparr>\<rparr>
       = Inr (x, \<lparr>f64 = x, l = \<lparr>writer = False, readers = n\<rparr>\<rparr>)"
  by (simp add: CAS2_Load_def LoadUint64_def Mutex_Load_def RLock_def RUnlock_def)

section \<open>Whole runs\<close>


text \<open>
  C5. After any sequence of \<open>Swap\<close> calls, the values the calls returned together with the
  value a final \<open>Load\<close> returns are, as a multiset, the initial value and the values swapped
  in: none is duplicated, none dropped. In both variants.
\<close>

theorem Swap_conserves_values:
  "(\<exists>outs c. CAS2_run (map CallSwap vs) (NewAtomicFloatCAS2 v0) = Some (map Value outs, c)
      \<and> add_mset (fst (CAS2_Load c)) (mset outs) = mset (v0 # vs))
   \<and> (\<exists>outs m. Mutex_run (map CallSwap vs) (NewAtomicFloatMutex v0) = Inr (map Value outs, m)
      \<and> Mutex_Load m = Inr (f64 m, m)
      \<and> add_mset (f64 m) (mset outs) = mset (v0 # vs))"
proof -
  let ?c0 = "NewAtomicFloatCAS2 v0"
  from CAS2_swaps [of vs ?c0] obtain outs c where
    cas: "CAS2_run (map CallSwap vs) ?c0 = Some (map Value outs, c)"
      "add_mset (fst (CAS2_Load c)) (mset outs) = mset (v0 # vs)"
    by (auto simp add: NewAtomicFloatCAS2_def CAS2_Load_def LoadUint64_def frombits_bits)
  let ?m = "\<lparr>f64 = Float64frombits (u64 c), l = \<lparr>writer = False, readers = 0\<rparr>\<rparr>"
  from run_simulation [of "map CallSwap vs" ?c0] cas(1)
  have "Mutex_run (map CallSwap vs) (NewAtomicFloatMutex v0) = Inr (map Value outs, ?m)"
    by (auto simp add: NewAtomicFloatCAS2_def NewAtomicFloatMutex_def frombits_bits)
  moreover have "Mutex_Load ?m = Inr (f64 ?m, ?m)"
    by (simp add: Mutex_Load_def RLock_def RUnlock_def)
  moreover have "add_mset (f64 ?m) (mset outs) = mset (v0 # vs)"
    using cas(2) by (simp add: CAS2_Load_def LoadUint64_def)
  ultimately show ?thesis using cas by blast
qed


section \<open>The two bitwise variants\<close>

text \<open>
  C10. \<open>atomicFloatCAS\<close> (the \<open>for\<close> loop) and \<open>atomicFloatCAS2\<close> (the \<open>goto\<close>) are the same
  functions: from the same stored integer and the same arguments, in the same environment,
  \<open>Add\<close>, \<open>Load\<close>, \<open>Store\<close> and \<open>Swap\<close> return the same values and leave the same integer
  (\<open>Add\<close> also fails to return in the same cases), and the constructors store the same
  integer.
\<close>

theorem CAS_and_CAS2_are_the_same_functions:
  "map_option (map_prod id atomicFloatCAS.u64) (CAS_Add env delta \<lparr>atomicFloatCAS.u64 = w\<rparr>)
     = map_option (map_prod id u64) (CAS2_Add env delta \<lparr>u64 = w\<rparr>)
   \<and> map_prod id atomicFloatCAS.u64 (CAS_Load \<lparr>atomicFloatCAS.u64 = w\<rparr>)
     = map_prod id u64 (CAS2_Load \<lparr>u64 = w\<rparr>)
   \<and> atomicFloatCAS.u64 (CAS_Store v \<lparr>atomicFloatCAS.u64 = w\<rparr>) = u64 (CAS2_Store v \<lparr>u64 = w\<rparr>)
   \<and> map_prod id atomicFloatCAS.u64 (CAS_Swap v \<lparr>atomicFloatCAS.u64 = w\<rparr>)
     = map_prod id u64 (CAS2_Swap v \<lparr>u64 = w\<rparr>)
   \<and> atomicFloatCAS.u64 (NewAtomicFloatCAS v) = u64 (NewAtomicFloatCAS2 v)"
  by (simp add: CAS_Add_def CAS2_Add_def CAS_loop_eq_CAS2_loop
      CAS_Load_def CAS2_Load_def CAS_Store_def CAS2_Store_def CAS_Swap_def CAS2_Swap_def
      NewAtomicFloatCAS_def NewAtomicFloatCAS2_def LoadUint64_def StoreUint64_def SwapUint64_def)

section \<open>Accumulation\<close>

text \<open>
  Claim C3, as amended. Starting from 0.0, \<open>A * C\<close> calls of \<open>Add(1.0)\<close>, each taking effect
  at once, leave a final \<open>Load()\<close> equal to the double \<open>A * C\<close> whenever \<open>A * C \<le> 2 ^ 53\<close>,
  and every such integer is exactly representable; from \<open>2 ^ 53\<close> additions on the final value
  is the double \<open>2 ^ 53\<close>. This holds for the bitwise and for the locking variant. For 4 adders
  of 500 calls the final value is 2000.0.
\<close>

theorem accumulation_exact_up_to_2_53:
  "(A * C \<le> 2 ^ 53 \<longrightarrow>
      representable (int (A * C))
      \<and> CAS2_final (replicate (A * C) (CallAdd (float64_of_int 1)))
            (NewAtomicFloatCAS2 (float64_of_int 0)) = Some (float64_of_int (int (A * C)))
      \<and> Mutex_final (replicate (A * C) (CallAdd (float64_of_int 1)))
            (NewAtomicFloatMutex (float64_of_int 0)) = Inr (float64_of_int (int (A * C))))
   \<and> (2 ^ 53 \<le> A * C \<longrightarrow>
      CAS2_final (replicate (A * C) (CallAdd (float64_of_int 1)))
            (NewAtomicFloatCAS2 (float64_of_int 0)) = Some (float64_of_int (2 ^ 53))
      \<and> Mutex_final (replicate (A * C) (CallAdd (float64_of_int 1)))
            (NewAtomicFloatMutex (float64_of_int 0)) = Inr (float64_of_int (2 ^ 53)))"
proof (intro conjI impI)
  assume le: "A * C \<le> 2 ^ 53"
  then have m: "min (A * C) (2 ^ 53) = A * C" by simp
  from float64_of_int_exact [OF le]
  show "representable (int (A * C))"
    by (simp add: representable_def scaled_def)
  show "CAS2_final (replicate (A * C) (CallAdd (float64_of_int 1)))
      (NewAtomicFloatCAS2 (float64_of_int 0)) = Some (float64_of_int (int (A * C)))"
    using accumulate_ones_CAS2 [of "A * C"] unfolding m .
  show "Mutex_final (replicate (A * C) (CallAdd (float64_of_int 1)))
      (NewAtomicFloatMutex (float64_of_int 0)) = Inr (float64_of_int (int (A * C)))"
    using accumulate_ones_Mutex [of "A * C"] unfolding m .
next
  assume "2 ^ 53 \<le> A * C"
  then have m: "int (min (A * C) (2 ^ 53)) = 2 ^ 53" by simp
  show "CAS2_final (replicate (A * C) (CallAdd (float64_of_int 1)))
      (NewAtomicFloatCAS2 (float64_of_int 0)) = Some (float64_of_int (2 ^ 53))"
    using accumulate_ones_CAS2 [of "A * C"] unfolding m .
  show "Mutex_final (replicate (A * C) (CallAdd (float64_of_int 1)))
      (NewAtomicFloatMutex (float64_of_int 0)) = Inr (float64_of_int (2 ^ 53))"
    using accumulate_ones_Mutex [of "A * C"] unfolding m .
qed

text \<open>
  The scenario of 4 adders and 500 calls ends at 2000.0, whose bit pattern is
  \<open>0x409F400000000000\<close>; one adder of \<open>2 ^ 53 + 2\<close> calls ends at \<open>2 ^ 53\<close>.
\<close>

theorem accumulation_exact_up_to_2_53_witness:
  "(4::nat) * 500 \<le> 2 ^ 53
   \<and> CAS2_final (replicate (4 * 500) (CallAdd (float64_of_int 1)))
        (NewAtomicFloatCAS2 (float64_of_int 0)) = Some (Float64 False 1033 4292493394837504)
   \<and> Mutex_final (replicate (4 * 500) (CallAdd (float64_of_int 1)))
        (NewAtomicFloatMutex (float64_of_int 0)) = Inr (Float64 False 1033 4292493394837504)
   \<and> Float64bits (Float64 False 1033 4292493394837504) = 4656510908468559872
   \<and> (2::nat) ^ 53 \<le> 1 * (2 ^ 53 + 2)
   \<and> CAS2_final (replicate (1 * (2 ^ 53 + 2)) (CallAdd (float64_of_int 1)))
        (NewAtomicFloatCAS2 (float64_of_int 0)) = Some (Float64 False 1076 0)
   \<and> Mutex_final (replicate (1 * (2 ^ 53 + 2)) (CallAdd (float64_of_int 1)))
        (NewAtomicFloatMutex (float64_of_int 0)) = Inr (Float64 False 1076 0)"
proof -
  have small: "(4::nat) * 500 \<le> 2 ^ 53" by simp
  have large: "(2::nat) ^ 53 \<le> 1 * (2 ^ 53 + 2)" by simp
  from accumulation_exact_up_to_2_53 [of 4 500] small
  have a: "CAS2_final (replicate (4 * 500) (CallAdd (float64_of_int 1)))
        (NewAtomicFloatCAS2 (float64_of_int 0)) = Some (float64_of_int (int (4 * 500)))"
    and b: "Mutex_final (replicate (4 * 500) (CallAdd (float64_of_int 1)))
        (NewAtomicFloatMutex (float64_of_int 0)) = Inr (float64_of_int (int (4 * 500)))"
    by blast+
  from accumulation_exact_up_to_2_53 [of 1 "2 ^ 53 + 2"] large
  have c: "CAS2_final (replicate (1 * (2 ^ 53 + 2)) (CallAdd (float64_of_int 1)))
        (NewAtomicFloatCAS2 (float64_of_int 0)) = Some (float64_of_int (2 ^ 53))"
    and d: "Mutex_final (replicate (1 * (2 ^ 53 + 2)) (CallAdd (float64_of_int 1)))
        (NewAtomicFloatMutex (float64_of_int 0)) = Inr (float64_of_int (2 ^ 53))"
    by blast+
  from small large a b c d bits_2000 show ?thesis
    unfolding float64_of_int_2000 float64_of_int_2_53 by blast
qed

text \<open>
  Being exactly representable is not enough: \<open>2 ^ 53 + 2\<close> is a double, and
  \<open>2 ^ 53 + 2\<close> additions of 1.0 do not reach it, in either variant.
\<close>

theorem accumulation_beyond_2_53_counterexample:
  "representable (int (1 * (2 ^ 53 + 2)))
   \<and> CAS2_final (replicate (1 * (2 ^ 53 + 2)) (CallAdd (float64_of_int 1)))
        (NewAtomicFloatCAS2 (float64_of_int 0))
       \<noteq> Some (float64_of_int (int (1 * (2 ^ 53 + 2))))
   \<and> Mutex_final (replicate (1 * (2 ^ 53 + 2)) (CallAdd (float64_of_int 1)))
        (NewAtomicFloatMutex (float64_of_int 0))
       \<noteq> Inr (float64_of_int (int (1 * (2 ^ 53 + 2))))"
proof -
  have m: "int (min (1 * (2 ^ 53 + 2)) (2 ^ 53)) = 2 ^ 53" by simp
  have w: "float64_of_int (int (1 * (2 ^ 53 + 2))) = Float64 False 1076 1"
    using float64_of_int_2_53_plus_2 by simp
  have r: "representable (int (1 * (2 ^ 53 + 2)))"
    using representable_2_53_plus_2 by simp
  have ne: "Float64 False 1076 0 \<noteq> Float64 False 1076 1" by simp
  have c: "CAS2_final (replicate (1 * (2 ^ 53 + 2)) (CallAdd (float64_of_int 1)))
        (NewAtomicFloatCAS2 (float64_of_int 0)) = Some (Float64 False 1076 0)"
    using accumulate_ones_CAS2 [of "1 * (2 ^ 53 + 2)"] unfolding m float64_of_int_2_53 .
  have d: "Mutex_final (replicate (1 * (2 ^ 53 + 2)) (CallAdd (float64_of_int 1)))
        (NewAtomicFloatMutex (float64_of_int 0)) = Inr (Float64 False 1076 0)"
    using accumulate_ones_Mutex [of "1 * (2 ^ 53 + 2)"] unfolding m float64_of_int_2_53 .
  show ?thesis
    unfolding c d w using r ne by blast
qed

end
